theory Spec2Isabelle
  imports Main "HOL-Library.Word"
begin

unbundle bit_operations_syntax

section \<open>Go strings: the library calls of crontinuous.go\<close>

text \<open>
  A Go string is a sequence of bytes, here a \<open>string\<close> (\<open>char list\<close>, one \<open>char\<close> per
  byte). The calls below are the ones \<open>parseCrontabLine\<close>, \<open>flush\<close> and \<open>Run\<close> make
  into package \<open>strings\<close>.
\<close>

subsection \<open>strings.TrimSpace\<close>

text \<open>
  \<open>unicode.IsSpace\<close> holds of tab, line feed, vertical tab, form feed, carriage return
  and space, of U+0085 and U+00A0, and of U+1680, U+2000..U+200A, U+2028, U+2029, U+202F,
  U+205F and U+3000. The lists below are the UTF-8 encodings of these runes by width.
\<close>

definition asciiSpaces :: "string list" where
  "asciiSpaces = map (\<lambda>c. [c]) [CHR 0x09, CHR 0x0A, CHR 0x0B, CHR 0x0C, CHR 0x0D, CHR 0x20]"

definition latin1Spaces :: "string list" where
  "latin1Spaces = [[CHR 0xC2, CHR 0x85], [CHR 0xC2, CHR 0xA0]]"

definition wideSpaces :: "string list" where
  "wideSpaces =
     [[CHR 0xE1, CHR 0x9A, CHR 0x80]] @
     map (\<lambda>c. [CHR 0xE2, CHR 0x80, c])
       [CHR 0x80, CHR 0x81, CHR 0x82, CHR 0x83, CHR 0x84, CHR 0x85, CHR 0x86, CHR 0x87,
        CHR 0x88, CHR 0x89, CHR 0x8A, CHR 0xA8, CHR 0xA9, CHR 0xAF] @
     [[CHR 0xE2, CHR 0x81, CHR 0x9F], [CHR 0xE3, CHR 0x80, CHR 0x80]]"

text \<open>The width in bytes of the white-space rune a string starts with, 0 when it starts
  with none.\<close>

definition leadingSpace :: "string \<Rightarrow> nat" where
  "leadingSpace s =
     (if take 1 s \<in> set asciiSpaces then 1
      else if take 2 s \<in> set latin1Spaces then 2
      else if take 3 s \<in> set wideSpaces then 3
      else 0)"

text \<open>The same for the rune a string ends with (\<open>utf8.DecodeLastRuneInString\<close>).\<close>

definition trailingSpace :: "string \<Rightarrow> nat" where
  "trailingSpace s =
     (if drop (length s - 1) s \<in> set asciiSpaces then 1
      else if drop (length s - 2) s \<in> set latin1Spaces then 2
      else if drop (length s - 3) s \<in> set wideSpaces then 3
      else 0)"

function TrimLeft :: "string \<Rightarrow> string" where
  "TrimLeft s = (if leadingSpace s = 0 then s else TrimLeft (drop (leadingSpace s) s))"
  by pat_completeness auto
termination
proof (relation "measure length")
  fix s :: string
  assume "leadingSpace s \<noteq> 0"
  moreover have "leadingSpace s \<le> length s"
    by (cases s; cases "tl s"; cases "tl (tl s)")
       (auto simp: leadingSpace_def asciiSpaces_def latin1Spaces_def wideSpaces_def)
  ultimately show "(drop (leadingSpace s) s, s) \<in> measure length" by simp
qed simp

function TrimRight :: "string \<Rightarrow> string" where
  "TrimRight s =
     (if trailingSpace s = 0 then s else TrimRight (take (length s - trailingSpace s) s))"
  by pat_completeness auto
termination
proof (relation "measure length")
  fix s :: string
  assume "trailingSpace s \<noteq> 0"
  moreover have "trailingSpace s \<le> length s"
  proof -
    have "length s < 1 \<Longrightarrow> drop (length s - 1) s \<notin> set asciiSpaces"
      by (auto simp: asciiSpaces_def)
    moreover have "length s < 2 \<Longrightarrow> drop (length s - 2) s \<notin> set latin1Spaces"
      by (cases s; cases "tl s") (auto simp: latin1Spaces_def)
    moreover have "length s < 3 \<Longrightarrow> drop (length s - 3) s \<notin> set wideSpaces"
      by (cases s; cases "tl s"; cases "tl (tl s)") (auto simp: wideSpaces_def)
    ultimately show ?thesis
      unfolding trailingSpace_def by (auto simp: not_less [symmetric])
  qed
  ultimately show "(take (length s - trailingSpace s) s, s) \<in> measure length" by simp
qed simp

declare TrimLeft.simps [simp del] TrimRight.simps [simp del]

definition TrimSpace :: "string \<Rightarrow> string" where
  "TrimSpace s = TrimRight (TrimLeft s)"

subsection \<open>strings.HasPrefix, strings.Join\<close>

definition HasPrefix :: "string \<Rightarrow> string \<Rightarrow> bool" where
  "HasPrefix s p \<longleftrightarrow> length p \<le> length s \<and> take (length p) s = p"

fun Join :: "string list \<Rightarrow> string \<Rightarrow> string" where
  "Join [] sep = []"
| "Join [a] sep = a"
| "Join (a # b # rest) sep = a @ sep @ Join (b # rest) sep"

subsection \<open>strings.NewReplacer("  ", " ", "\t", " ").Replace\<close>

text \<open>
  With an old string of two bytes the replacer is the generic one: it walks the input
  from the left, at each position replaces the old string that starts there (two spaces
  by one, a tab by a space) and steps over it, and otherwise copies one byte. Matches
  do not overlap and the output is not scanned again.
\<close>

fun Replace :: "string \<Rightarrow> string" where
  "Replace [] = []"
| "Replace [a] = (if a = CHR 0x09 then '' '' else [a])"
| "Replace (a # b # s) =
     (if a = CHR '' '' \<and> b = CHR '' '' then CHR '' '' # Replace s
      else if a = CHR 0x09 then CHR '' '' # Replace (b # s)
      else a # Replace (b # s))"

subsection \<open>strings.SplitN and strings.Split on a one-byte separator\<close>

text \<open>
  A Go slice is a window of a backing array: \<open>arr\<close> is the array from the slice's first
  element to its capacity, \<open>slen\<close> the slice's length. Indexing checks the length,
  slicing checks the capacity.
\<close>

record 'a slice =
  arr :: "'a list"
  slen :: nat

definition cap :: "'a slice \<Rightarrow> nat" where
  "cap sl = length (arr sl)"

definition elems :: "'a slice \<Rightarrow> 'a list" where
  "elems sl = take (slen sl) (arr sl)"

datatype failure =
    IndexOutOfRange nat nat
  | SliceOutOfRange nat nat
  | FatalExit string

definition at_index :: "'a slice \<Rightarrow> nat \<Rightarrow> failure + 'a" where
  "at_index sl i = (if i < slen sl then Inr (arr sl ! i) else Inl (IndexOutOfRange i (slen sl)))"

definition reslice :: "'a slice \<Rightarrow> nat \<Rightarrow> nat \<Rightarrow> failure + 'a slice" where
  "reslice sl lo hi =
     (if hi \<le> cap sl \<and> lo \<le> hi
      then Inr \<lparr>arr = drop lo (arr sl), slen = hi - lo\<rparr>
      else Inl (SliceOutOfRange hi (cap sl)))"

fun IndexByte :: "string \<Rightarrow> char \<Rightarrow> nat option" where
  "IndexByte [] c = None"
| "IndexByte (a # s) c = (if a = c then Some 0 else map_option Suc (IndexByte s c))"

definition Count :: "string \<Rightarrow> char \<Rightarrow> nat" where
  "Count s c = length (filter (\<lambda>a. a = c) s)"

text \<open>The loop of \<open>genSplit\<close>: at most \<open>k\<close> cuts, the rest of the string is the last piece.\<close>

fun splitLoop :: "string \<Rightarrow> char \<Rightarrow> nat \<Rightarrow> string list" where
  "splitLoop s c 0 = [s]"
| "splitLoop s c (Suc k) =
     (case IndexByte s c of
        None \<Rightarrow> [s]
      | Some m \<Rightarrow> take m s # splitLoop (drop (Suc m) s) c k)"

text \<open>
  \<open>genSplit\<close> allocates \<open>n\<close> strings (all of them the empty string), \<open>n\<close> lowered to
  \<open>len(s) + 1\<close>, fills the pieces in and returns the array cut to the pieces found: the
  capacity of the result is \<open>n\<close>. A negative \<open>n\<close> means every piece.
\<close>

definition SplitN :: "string \<Rightarrow> char \<Rightarrow> int \<Rightarrow> string slice" where
  "SplitN s c n =
     (if n = 0 then \<lparr>arr = [], slen = 0\<rparr>
      else
        let n1 = (if n < 0 then Count s c + 1 else nat n);
            n2 = (if n1 > length s + 1 then length s + 1 else n1);
            ps = splitLoop s c (n2 - 1)
        in \<lparr>arr = ps @ replicate (n2 - length ps) [], slen = length ps\<rparr>)"

definition Split :: "string \<Rightarrow> char \<Rightarrow> string list" where
  "Split s c = elems (SplitN s c (- 1))"

section \<open>crypto/sha1 and encoding/hex\<close>

text \<open>
  \<open>createRunnable\<close> hashes the command with SHA-1 and writes the digest in lower-case
  hexadecimal. The hash is the standard one (FIPS 180-4) on 32-bit words.
\<close>

type_synonym u32 = "32 word"

definition be64 :: "64 word \<Rightarrow> string" where
  "be64 w = map (\<lambda>i. char_of (unat (drop_bit (8 * (7 - i)) w))) [0..<8]"

definition pad :: "string \<Rightarrow> string" where
  "pad m = m @ [CHR 0x80] @ replicate ((119 - length m mod 64) mod 64) (CHR 0x00)
             @ be64 (of_nat (8 * length m))"

definition be32 :: "string \<Rightarrow> u32" where
  "be32 bs = foldl (\<lambda>w c. push_bit 8 w OR of_char c) 0 (take 4 bs)"

definition blockWords :: "string \<Rightarrow> u32 list" where
  "blockWords b = map (\<lambda>i. be32 (drop (4 * i) b)) [0..<16]"

fun expand :: "nat \<Rightarrow> u32 list \<Rightarrow> u32 list" where
  "expand 0 w = w"
| "expand (Suc k) w =
     (let n = length w
      in expand k (w @ [word_rotl 1 (w ! (n - 3) XOR w ! (n - 8) XOR w ! (n - 14) XOR w ! (n - 16))]))"

type_synonym sha1_state = "u32 \<times> u32 \<times> u32 \<times> u32 \<times> u32"

fun sha1_round :: "sha1_state \<Rightarrow> nat \<times> u32 \<Rightarrow> sha1_state" where
  "sha1_round (a, b, c, d, e) (i, wi) =
     (let (f, k) =
            (if i < 20 then ((b AND c) OR (NOT b AND d), 0x5A827999)
             else if i < 40 then (b XOR c XOR d, 0x6ED9EBA1)
             else if i < 60 then (((b OR c) AND d) OR (b AND c), 0x8F1BBCDC)
             else (b XOR c XOR d, 0xCA62C1D6));
          t = word_rotl 5 a + f + e + wi + k
      in (t, a, word_rotl 30 b, c, d))"

fun sha1_block :: "sha1_state \<Rightarrow> string \<Rightarrow> sha1_state" where
  "sha1_block (h0, h1, h2, h3, h4) blk =
     (let w = expand 64 (blockWords blk);
          (a, b, c, d, e) = foldl sha1_round (h0, h1, h2, h3, h4) (zip [0..<80] w)
      in (h0 + a, h1 + b, h2 + c, h3 + d, h4 + e))"

definition sha1_init :: sha1_state where
  "sha1_init = (0x67452301, 0xEFCDAB89, 0x98BADCFE, 0x10325476, 0xC3D2E1F0)"

definition bytes32 :: "u32 \<Rightarrow> string" where
  "bytes32 w = map (\<lambda>i. char_of (unat (drop_bit (8 * (3 - i)) w))) [0..<4]"

definition sha1 :: "string \<Rightarrow> string" where
  "sha1 m =
     (let p = pad m;
          blks = map (\<lambda>i. take 64 (drop (64 * i) p)) [0..<length p div 64];
          (h0, h1, h2, h3, h4) = foldl sha1_block sha1_init blks
      in bytes32 h0 @ bytes32 h1 @ bytes32 h2 @ bytes32 h3 @ bytes32 h4)"

definition hextable :: string where
  "hextable = ''0123456789abcdef''"

definition EncodeToString :: "string \<Rightarrow> string" where
  "EncodeToString bs =
     concat (map (\<lambda>c. [hextable ! (of_char c div 16), hextable ! (of_char c mod 16)]) bs)"

section \<open>Log records\<close>

text \<open>
  What the process writes through logrus: a level, the fields of the entry and the
  message. A function that logs returns the records it wrote, in order.
\<close>

datatype level = InfoLevel | WarnLevel | ErrorLevel

type_synonym fields = "(string \<times> string) list"

datatype log_record = Record level fields string

section \<open>Runnable\<close>

definition logBufferSize :: nat where
  "logBufferSize = 1024 * 512"

record Runnable =
  ID :: string
  Command :: string
  Args :: string
  Schedule :: string
  buffer :: string
  bufferPos :: nat
  isRunning :: bool
  contextLogger :: fields

definition createRunnable :: "string \<Rightarrow> string \<Rightarrow> string \<Rightarrow> Runnable" where
  "createRunnable command args schedule =
     (let hash = sha1 command;
          id = EncodeToString hash
      in \<lparr>ID = id, Command = command, Args = args, Schedule = schedule,
          buffer = replicate logBufferSize (CHR 0x00), bufferPos = 0, isRunning = False,
          contextLogger = [(''id'', id), (''schedule'', schedule), (''command'', command)]\<rparr>)"

text \<open>
  \<open>flush\<close>: nothing at cursor 0; otherwise the bytes before the cursor, trimmed, go out as
  one record and the cursor returns to 0. The slice \<open>r.buffer[0:r.bufferPos]\<close> panics
  when the cursor is beyond the buffer.
\<close>

definition flush :: "Runnable \<Rightarrow> failure + Runnable \<times> log_record list" where
  "flush r =
     (if bufferPos r = 0 then Inr (r, [])
      else if bufferPos r > length (buffer r)
        then Inl (SliceOutOfRange (bufferPos r) (length (buffer r)))
      else
        let trimmedLines = TrimSpace (take (bufferPos r) (buffer r))
        in Inr (r\<lparr>bufferPos := 0\<rparr>,
                [Record InfoLevel (contextLogger r @ [(''output'', trimmedLines)])
                   ''command std output'']))"

definition logCreation :: "Runnable \<Rightarrow> log_record" where
  "logCreation r = Record InfoLevel (contextLogger r) ''job created''"

text \<open>\<open>copy(dst[pos:], src)\<close> on a byte array: as many bytes as fit are written at \<open>pos\<close>.\<close>

definition copy_at :: "string \<Rightarrow> nat \<Rightarrow> string \<Rightarrow> string" where
  "copy_at buf pos src =
     take pos buf @ take (length buf - pos) src @ drop (pos + length src) buf"

text \<open>The body of the loop over the lines of standard output in \<open>Run\<close>.\<close>

definition appendLine :: "Runnable \<Rightarrow> string \<Rightarrow> failure + Runnable \<times> log_record list" where
  "appendLine r text =
     (let message = text @ [CHR 0x0A];
          len = length message
      in if len > logBufferSize
         then Inr (r, [Record InfoLevel (contextLogger r) ''message received was too large''])
         else
           case (if len + bufferPos r > logBufferSize then flush r else Inr (r, [])) of
             Inl e \<Rightarrow> Inl e
           | Inr (r1, out) \<Rightarrow>
               if bufferPos r1 > length (buffer r1)
               then Inl (SliceOutOfRange (bufferPos r1) (length (buffer r1)))
               else Inr (r1\<lparr>buffer := copy_at (buffer r1) (bufferPos r1) message,
                             bufferPos := bufferPos r1 + len\<rparr>, out))"

section \<open>The scheduler (robfig/cron)\<close>

text \<open>
  The scheduler keeps its registrations in the order they were added and a running flag.
  Its parser of schedule expressions is outside this repository: \<open>Parse\<close> is a parameter
  that gives the error message of a malformed expression and \<open>None\<close> for a good one.
\<close>

record Cron =
  entries :: "(string \<times> Runnable) list"
  running :: bool

definition New :: Cron where
  "New = \<lparr>entries = [], running = False\<rparr>"

definition Stop :: "Cron \<Rightarrow> Cron" where
  "Stop c = c\<lparr>running := False\<rparr>"

definition Start :: "Cron \<Rightarrow> Cron" where
  "Start c = c\<lparr>running := True\<rparr>"

definition AddJob :: "(string \<Rightarrow> string option) \<Rightarrow> Cron \<Rightarrow> string \<Rightarrow> Runnable \<Rightarrow> Cron \<times> string option" where
  "AddJob Parse c spec cmd =
     (case Parse spec of
        Some err \<Rightarrow> (c, Some err)
      | None \<Rightarrow> (c\<lparr>entries := entries c @ [(spec, cmd)]\<rparr>, None))"

section \<open>parseCrontabLine\<close>

definition parseCrontabLine ::
  "(string \<Rightarrow> string option) \<Rightarrow> Cron \<Rightarrow> string \<Rightarrow> failure + Cron \<times> log_record list" where
  "parseCrontabLine Parse cronScheduler line0 =
     (let line = TrimSpace line0
      in if length line \<le> 0 \<or> HasPrefix line ''#'' then Inr (cronScheduler, [])
         else
           let line = Replace line;
               substrings = SplitN line (CHR '' '') 7
           in if slen substrings < 5 then Inr (cronScheduler, [])
              else
                case (if slen substrings \<ge> 6
                      then (case reslice substrings 6 7 of
                              Inl e \<Rightarrow> Inl e
                            | Inr sl \<Rightarrow> Inr (Join (elems sl) '' ''))
                      else Inr []) of
                  Inl e \<Rightarrow> Inl e
                | Inr args \<Rightarrow>
                   (case reslice substrings 0 5 of
                      Inl e \<Rightarrow> Inl e
                    | Inr five \<Rightarrow>
                       let schedule = ''0 '' @ Join (elems five) '' ''
                       in (case at_index substrings 5 of
                             Inl e \<Rightarrow> Inl e
                           | Inr command \<Rightarrow>
                              let r = createRunnable command args schedule
                              in (case AddJob Parse cronScheduler schedule r of
                                    (c, Some err) \<Rightarrow>
                                      Inr (c, [Record ErrorLevel (contextLogger r)
                                                 (''unable to parse schedule'' @ err)])
                                  | (c, None) \<Rightarrow> Inr (c, [logCreation r])))))"

section \<open>bufio.Scanner over lines\<close>

text \<open>
  A stream is the bytes a reader delivers and the error it ends with (\<open>None\<close> for the
  end of the file). \<open>bufio.Scanner\<close> with its default split function cuts the bytes at
  line feeds, drops one carriage return before the line feed, delivers a last line without
  line feed when it is not empty, and gives up with \<open>ErrTooLong\<close> when its buffer of
  \<open>MaxScanTokenSize\<close> bytes is full and holds no line feed.
\<close>

record stream =
  bytes :: string
  readErr :: "string option"

definition MaxScanTokenSize :: nat where
  "MaxScanTokenSize = 64 * 1024"

definition ErrTooLong :: string where
  "ErrTooLong = ''bufio.Scanner: token too long''"

definition dropCR :: "string \<Rightarrow> string" where
  "dropCR s = (if s \<noteq> [] \<and> last s = CHR 0x0D then butlast s else s)"

function scanLines :: "string \<Rightarrow> string list \<times> bool" where
  "scanLines s =
     (if s = [] then ([], False)
      else
        case IndexByte s (CHR 0x0A) of
          None \<Rightarrow> if length s \<ge> MaxScanTokenSize then ([], True) else ([dropCR s], False)
        | Some i \<Rightarrow>
            if i \<ge> MaxScanTokenSize then ([], True)
            else (case scanLines (drop (Suc i) s) of (toks, err) \<Rightarrow> (dropCR (take i s) # toks, err)))"
  by pat_completeness auto
termination
proof (relation "measure length")
  fix s :: string and i
  assume "s \<noteq> []" and "IndexByte s (CHR 0x0A) = Some i"
  then show "(drop (Suc i) s, s) \<in> measure length"
    by (cases s) auto
qed simp

declare scanLines.simps [simp del]

definition Scan :: "stream \<Rightarrow> string list \<times> string option" where
  "Scan st =
     (case scanLines (bytes st) of
        (toks, True) \<Rightarrow> (toks, Some ErrTooLong)
      | (toks, False) \<Rightarrow> (toks, readErr st))"

section \<open>Run\<close>

text \<open>
  What \<open>Run\<close> reads from its surroundings: the flag \<open>-exec\<close> and the variable \<open>SHELL\<close>,
  \<open>exec.LookPath\<close> (the error for a command that is not on the path), and for each
  command line the process it gives: the errors of the two pipes, of \<open>Start\<close> and of
  \<open>Wait\<close>, the two output streams, and \<open>tick\<close>, which says before which lines of standard
  output the periodic flush task gets its turn (\<open>tick k\<close> before line \<open>k\<close>, counted from 0;
  \<open>tick n\<close> after the last of \<open>n\<close> lines). The program runs that task beside \<open>Run\<close>
  without a lock; here each of its flushes falls between two turns of the loop, never
  inside one.
\<close>

record config =
  executer :: string
  SHELL :: string
  crontab :: string

record invocation =
  name :: string
  argv :: "string list"

record process =
  stdoutPipeErr :: "string option"
  stderrPipeErr :: "string option"
  startErr :: "string option"
  stdout :: stream
  stderr :: stream
  waitErr :: "string option"
  tick :: "nat \<Rightarrow> bool"

datatype effect = StartCalled invocation | WaitCalled invocation

definition buildCmd :: "config \<Rightarrow> Runnable \<Rightarrow> invocation" where
  "buildCmd cfg r =
     (if executer cfg = ''go''
      then let cmdArgs = Split (Args r) (CHR '' '') in \<lparr>name = Command r, argv = cmdArgs\<rparr>
      else let cmdString = Command r @ '' '' @ Args r
           in \<lparr>name = SHELL cfg, argv = [''-c'', cmdString]\<rparr>)"

datatype event = Line string | Tick

fun interleave :: "(nat \<Rightarrow> bool) \<Rightarrow> nat \<Rightarrow> string list \<Rightarrow> event list" where
  "interleave t k [] = (if t k then [Tick] else [])"
| "interleave t k (l # ls) = (if t k then [Tick] else []) @ Line l # interleave t (Suc k) ls"

definition step :: "Runnable \<Rightarrow> event \<Rightarrow> failure + Runnable \<times> log_record list" where
  "step r ev = (case ev of Line l \<Rightarrow> appendLine r l | Tick \<Rightarrow> flush r)"

fun stdoutLoop :: "Runnable \<Rightarrow> event list \<Rightarrow> failure + Runnable \<times> log_record list" where
  "stdoutLoop r [] = Inr (r, [])"
| "stdoutLoop r (ev # evs) =
     (case step r ev of
        Inl e \<Rightarrow> Inl e
      | Inr (r1, out1) \<Rightarrow>
         (case stdoutLoop r1 evs of
            Inl e \<Rightarrow> Inl e
          | Inr (r2, out2) \<Rightarrow> Inr (r2, out1 @ out2)))"

definition logError :: "Runnable \<Rightarrow> string option \<Rightarrow> log_record list" where
  "logError r err = (case err of None \<Rightarrow> [] | Some e \<Rightarrow> [Record ErrorLevel (contextLogger r) e])"

definition stderrLoop :: "Runnable \<Rightarrow> string list \<Rightarrow> log_record list" where
  "stderrLoop r ls =
     map (\<lambda>l. Record WarnLevel (contextLogger r @ [(''output'', l)]) ''command std error'') ls"

definition Run ::
  "config \<Rightarrow> (string \<Rightarrow> string option) \<Rightarrow> (invocation \<Rightarrow> process) \<Rightarrow> Runnable
     \<Rightarrow> failure + Runnable \<times> log_record list \<times> effect list" where
  "Run cfg LookPath spawn r =
     (case LookPath (Command r) of
        Some err \<Rightarrow> Inr (r, [Record ErrorLevel (contextLogger r) err], [])
      | None \<Rightarrow>
         (let cmd = buildCmd cfg r;
              p = spawn cmd
          in (case stdoutPipeErr p of
                Some err \<Rightarrow> Inl (FatalExit err)
              | None \<Rightarrow>
                 (case stderrPipeErr p of
                    Some err \<Rightarrow> Inl (FatalExit err)
                  | None \<Rightarrow>
                     (let r1 = r\<lparr>isRunning := True\<rparr>;
                          startLog = logError r1 (startErr p);
                          (outLines, outErr) = Scan (stdout p)
                      in (case stdoutLoop r1 (interleave (tick p) 0 outLines) of
                            Inl e \<Rightarrow> Inl e
                          | Inr (r2, outLog) \<Rightarrow>
                             (let (errLines, errErr) = Scan (stderr p)
                              in Inr (r2\<lparr>isRunning := False\<rparr>,
                                      startLog @ outLog @ logError r2 outErr
                                        @ stderrLoop r2 errLines
                                        @ logError r2 errErr @ logError r2 (waitErr p),
                                      [StartCalled cmd, WaitCalled cmd]))))))))"

text \<open>
  The scheduler fires a registration by calling \<open>Run\<close> on its job. The registration
  holds the job by pointer, so it holds afterwards what \<open>Run\<close> left in the job.
\<close>

definition fire ::
  "config \<Rightarrow> (string \<Rightarrow> string option) \<Rightarrow> (invocation \<Rightarrow> process) \<Rightarrow> Cron \<Rightarrow> nat
     \<Rightarrow> failure + Cron \<times> log_record list \<times> effect list" where
  "fire cfg LookPath spawn c i =
     (if i < length (entries c)
      then case entries c ! i of
             (spec, r) \<Rightarrow>
               (case Run cfg LookPath spawn r of
                  Inl e \<Rightarrow> Inl e
                | Inr (r1, out, effs) \<Rightarrow> Inr (c\<lparr>entries := (entries c)[i := (spec, r1)]\<rparr>, out, effs))
      else Inr (c, [], []))"

section \<open>initCron\<close>

fun parseLines ::
  "(string \<Rightarrow> string option) \<Rightarrow> Cron \<Rightarrow> string list \<Rightarrow> failure + Cron \<times> log_record list" where
  "parseLines Parse c [] = Inr (c, [])"
| "parseLines Parse c (l # ls) =
     (case parseCrontabLine Parse c l of
        Inl e \<Rightarrow> Inl e
      | Inr (c1, out1) \<Rightarrow>
         (case parseLines Parse c1 ls of
            Inl e \<Rightarrow> Inl e
          | Inr (c2, out2) \<Rightarrow> Inr (c2, out1 @ out2)))"

text \<open>
  \<open>initCron\<close> takes the scheduler the global variable holds and gives the one it holds
  afterwards, next to the old one as \<open>Stop\<close> left it. \<open>Open\<close> is \<open>os.Open\<close> on the path of
  the crontab: the error, or the stream of the file.
\<close>

definition initCron ::
  "config \<Rightarrow> (string \<Rightarrow> string option) \<Rightarrow> (string \<Rightarrow> string + stream) \<Rightarrow> Cron
     \<Rightarrow> failure + Cron \<times> Cron \<times> log_record list" where
  "initCron cfg Parse Open cronScheduler =
     (let old = Stop cronScheduler;
          c = New
      in case Open (crontab cfg) of
           Inl err \<Rightarrow> Inl (FatalExit err)
         | Inr file \<Rightarrow>
            (case Scan file of
               (ls, scanErr) \<Rightarrow>
                 (case parseLines Parse c ls of
                    Inl e \<Rightarrow> Inl e
                  | Inr (c1, out) \<Rightarrow>
                     (case scanErr of
                        Some err \<Rightarrow>
                          Inr (old, c1, out @ [Record ErrorLevel [] (''failed reading crontab'' @ err)])
                      | None \<Rightarrow> Inr (old, Start c1, out)))))"

section \<open>Properties\<close>

subsection \<open>Splitting on a byte\<close>

text \<open>
  \<open>Split\<close> cuts at every separator: the pieces hold no separator and joined by it they
  give the string back.
\<close>

lemma IndexByte_None: "IndexByte s c = None \<longleftrightarrow> c \<notin> set s"
  by (induction s) auto

lemma IndexByte_Some:
  "IndexByte s c = Some m \<Longrightarrow> m < length s \<and> s ! m = c \<and> c \<notin> set (take m s)"
proof (induction s arbitrary: m)
  case Nil
  then show ?case by simp
next
  case (Cons a s)
  show ?case
  proof (cases "a = c")
    case True
    with Cons.prems show ?thesis by simp
  next
    case False
    with Cons.prems obtain k where k: "IndexByte s c = Some k" "m = Suc k"
      by auto
    from Cons.IH [OF k(1)] False k(2) show ?thesis by simp
  qed
qed

lemma Count_le_length: "Count s c \<le> length s"
  by (simp add: Count_def)

lemma cut_at:
  assumes "IndexByte s c = Some m"
  shows "take m s @ c # drop (Suc m) s = s"
proof -
  from IndexByte_Some [OF assms] have "m < length s" and "s ! m = c"
    by blast+
  then show ?thesis
    using id_take_nth_drop [of m s] by metis
qed

lemma Count_cut:
  assumes "IndexByte s c = Some m"
  shows "Count s c = Suc (Count (drop (Suc m) s) c)"
proof -
  from IndexByte_Some [OF assms] have m: "c \<notin> set (take m s)"
    by blast
  have "Count s c = Count (take m s @ c # drop (Suc m) s) c"
    by (simp only: cut_at [OF assms])
  also have "\<dots> = Count (take m s) c + Suc (Count (drop (Suc m) s) c)"
    by (simp add: Count_def)
  also have "Count (take m s) c = 0"
    using m by (auto simp: Count_def filter_empty_conv)
  finally show ?thesis by simp
qed

lemma splitLoop_not_Nil: "splitLoop s c k \<noteq> []"
  by (cases k) (auto split: option.splits)

lemma Join_Cons: "ys \<noteq> [] \<Longrightarrow> Join (a # ys) sep = a @ sep @ Join ys sep"
  by (cases ys) auto

lemma splitLoop_all:
  "Count s c \<le> k \<Longrightarrow>
     length (splitLoop s c k) = Count s c + 1 \<and> Join (splitLoop s c k) [c] = s
     \<and> (\<forall>a \<in> set (splitLoop s c k). c \<notin> set a)"
proof (induction k arbitrary: s)
  case 0
  then have "c \<notin> set s" by (auto simp: Count_def filter_empty_conv)
  with 0 show ?case by simp
next
  case (Suc k)
  show ?case
  proof (cases "IndexByte s c")
    case None
    then have "c \<notin> set s" by (simp add: IndexByte_None)
    then have "Count s c = 0" by (auto simp: Count_def filter_empty_conv)
    with None \<open>c \<notin> set s\<close> show ?thesis by simp
  next
    case (Some m)
    from IndexByte_Some [OF Some] have m: "m < length s" "s ! m = c" "c \<notin> set (take m s)"
      by auto
    from Count_cut [OF Some] Suc.prems have "Count (drop (Suc m) s) c \<le> k" by simp
    from Suc.IH [OF this] have ih:
      "length (splitLoop (drop (Suc m) s) c k) = Count (drop (Suc m) s) c + 1"
      "Join (splitLoop (drop (Suc m) s) c k) [c] = drop (Suc m) s"
      "\<forall>a \<in> set (splitLoop (drop (Suc m) s) c k). c \<notin> set a"
      by auto
    have "take m s @ [c] @ drop (Suc m) s = s"
      using cut_at [OF Some] by simp
    then have j: "Join (take m s # splitLoop (drop (Suc m) s) c k) [c] = s"
      using ih(2) by (simp add: Join_Cons splitLoop_not_Nil)
    have sl: "splitLoop s c (Suc k) = take m s # splitLoop (drop (Suc m) s) c k"
      using Some by simp
    have "length (splitLoop s c (Suc k)) = Count s c + 1"
      unfolding sl using ih(1) Count_cut [OF Some] by simp
    moreover have "Join (splitLoop s c (Suc k)) [c] = s"
      unfolding sl by (rule j)
    moreover have "\<forall>a \<in> set (splitLoop s c (Suc k)). c \<notin> set a"
      unfolding sl using ih(3) m(3) by simp
    ultimately show ?thesis by blast
  qed
qed

lemma Split_splitLoop: "Split s c = splitLoop s c (Count s c)"
proof -
  have "length (splitLoop s c (Count s c)) = Count s c + 1"
    using splitLoop_all [of s c "Count s c"] by simp
  then show ?thesis
    using Count_le_length [of s c]
    by (simp add: Split_def SplitN_def elems_def Let_def)
qed

lemma Split_pieces:
  "Join (Split s c) [c] = s" "\<forall>a \<in> set (Split s c). c \<notin> set a"
  using splitLoop_all [of s c "Count s c"] by (simp_all add: Split_splitLoop)

subsection \<open>Lines the parser takes and lines it drops\<close>

text \<open>
  C1. A line of at least five tokens gives the schedule \<open>"0 "\<close> and the five fields, the
  sixth token as command and the seventh as argument string. On the line \<open>* * * * *\<close>
  of exactly five tokens the code does not get that far: the guard lets five tokens
  through and \<open>substrings[5]\<close> is then out of range, so the parser panics.
\<close>

theorem parseCrontabLine_five_tokens_panics:
  "parseCrontabLine Parse cronScheduler ''* * * * *'' = Inl (IndexOutOfRange 5 5)"
  by code_simp

text \<open>
  A line that is neither blank nor a comment and splits into six or seven tokens:
  the job is built from the tokens and registered when the scheduler accepts the
  schedule. With six tokens the seventh element of the array that \<open>SplitN\<close> allocated
  is the empty string, and that is the argument string.
\<close>

lemma parseCrontabLine_tokens:
  assumes "TrimSpace line \<noteq> []" and "\<not> HasPrefix (TrimSpace line) ''#''"
    and "SplitN (Replace (TrimSpace line)) (CHR '' '') 7
           = \<lparr>arr = [f1, f2, f3, f4, f5, cmd, a], slen = n\<rparr>"
    and "6 \<le> n"
  shows "parseCrontabLine Parse c line =
     (case Parse (''0 '' @ Join [f1, f2, f3, f4, f5] '' '') of
        Some err \<Rightarrow>
          Inr (c, [Record ErrorLevel
                     (contextLogger
                        (createRunnable cmd a (''0 '' @ Join [f1, f2, f3, f4, f5] '' '')))
                     (''unable to parse schedule'' @ err)])
      | None \<Rightarrow>
          Inr (c\<lparr>entries := entries c
                   @ [(''0 '' @ Join [f1, f2, f3, f4, f5] '' '',
                       createRunnable cmd a (''0 '' @ Join [f1, f2, f3, f4, f5] '' ''))]\<rparr>,
               [logCreation (createRunnable cmd a (''0 '' @ Join [f1, f2, f3, f4, f5] '' ''))]))"
  using assms
  by (simp add: parseCrontabLine_def Let_def reslice_def cap_def elems_def at_index_def AddJob_def
        split: option.splits)

text \<open>
  A trimmed line starts with neither a space nor a tab, and so does the line after the
  replacer. With six pieces or more the string is then at least six bytes long, and the
  array behind the pieces has all seven elements.
\<close>

lemma TrimLeft_no_leading: "leadingSpace (TrimLeft s) = 0"
  by (induction s rule: TrimLeft.induct) (subst TrimLeft.simps, simp)

lemma TrimRight_prefix: "\<exists>k. TrimRight t = take k t"
proof (induction t rule: TrimRight.induct)
  case (1 s)
  show ?case
  proof (cases "trailingSpace s = 0")
    case True
    then have "TrimRight s = take (length s) s" by (subst TrimRight.simps) simp
    then show ?thesis by blast
  next
    case False
    from 1 [OF False] obtain k where
      "TrimRight (take (length s - trailingSpace s) s) = take k (take (length s - trailingSpace s) s)"
      by blast
    with False have "TrimRight s = take (min k (length s - trailingSpace s)) s"
      by (subst TrimRight.simps) (simp add: min.commute)
    then show ?thesis by blast
  qed
qed

lemma TrimSpace_first:
  assumes "TrimSpace line \<noteq> []"
  shows "hd (TrimSpace line) \<noteq> CHR '' '' \<and> hd (TrimSpace line) \<noteq> CHR 0x09"
proof -
  obtain k where k: "TrimSpace line = take k (TrimLeft line)"
    using TrimRight_prefix [of "TrimLeft line"] by (auto simp: TrimSpace_def)
  with assms have ne: "TrimLeft line \<noteq> []" and "0 < k" by auto
  then have hd: "hd (TrimSpace line) = hd (TrimLeft line)" using k by simp
  have "take 1 (TrimLeft line) \<notin> set asciiSpaces"
    using TrimLeft_no_leading [of line] by (auto simp: leadingSpace_def split: if_splits)
  moreover have "take 1 (TrimLeft line) = [hd (TrimLeft line)]"
    using ne by (cases "TrimLeft line") simp_all
  ultimately show ?thesis
    using hd by (auto simp: asciiSpaces_def)
qed

lemma Replace_first:
  assumes "s \<noteq> []" and "hd s \<noteq> CHR '' ''" and "hd s \<noteq> CHR 0x09"
  shows "Replace s \<noteq> [] \<and> hd (Replace s) \<noteq> CHR '' ''"
  using assms by (cases s rule: Replace.cases) auto

lemma Count_first:
  assumes "s \<noteq> []" and "hd s \<noteq> c"
  shows "Count s c < length s"
proof -
  from assms obtain a t where s: "s = a # t" "a \<noteq> c" by (cases s) auto
  have "length (filter (\<lambda>x. x = c) t) \<le> length t" by (rule length_filter_le)
  then show ?thesis using s by (simp add: Count_def less_Suc_eq_le)
qed

lemma splitLoop_length_le: "length (splitLoop s c k) \<le> Suc k"
  by (induction k arbitrary: s) (auto split: option.splits)

lemma splitLoop_length_Count: "length (splitLoop s c k) \<le> Suc (Count s c)"
proof (induction k arbitrary: s)
  case 0
  then show ?case by simp
next
  case (Suc k)
  show ?case
  proof (cases "IndexByte s c")
    case None
    then show ?thesis by simp
  next
    case (Some m)
    with Suc [of "drop (Suc m) s"] Count_cut [OF Some] show ?thesis by simp
  qed
qed

lemma SplitN_seven:
  assumes "s \<noteq> []" and "hd s \<noteq> c" and "6 \<le> slen (SplitN s c 7)"
  shows "length (arr (SplitN s c 7)) = 7
     \<and> arr (SplitN s c 7) = elems (SplitN s c 7) @ replicate (7 - slen (SplitN s c 7)) []
     \<and> slen (SplitN s c 7) \<le> 7 \<and> length (elems (SplitN s c 7)) = slen (SplitN s c 7)"
proof -
  let ?n2 = "if 7 > length s + 1 then length s + 1 else 7"
  let ?ps = "splitLoop s c (?n2 - 1)"
  have sp: "SplitN s c 7 = \<lparr>arr = ?ps @ replicate (?n2 - length ?ps) [], slen = length ?ps\<rparr>"
    by (simp add: SplitN_def Let_def)
  from assms(3) sp have six: "6 \<le> length ?ps" by simp
  with splitLoop_length_Count [of s c "?n2 - 1"] have "5 \<le> Count s c" by simp
  with Count_first [OF assms(1,2)] have "6 \<le> length s" by simp
  then have n2: "?n2 = 7" by simp
  have le: "length ?ps \<le> 7" using splitLoop_length_le [of s c "?n2 - 1"] n2 by simp
  show ?thesis
    using sp n2 le by (simp add: elems_def)
qed

text \<open>
  So every line that is not dropped and has six tokens or more is parsed the way C1 says:
  the schedule is \<open>"0 "\<close> and the first five tokens joined by spaces, the command is the
  sixth token, and the argument string is the seventh token, or empty without one.
\<close>

lemma parseCrontabLine_six_tokens:
  assumes "TrimSpace line \<noteq> []" and "\<not> HasPrefix (TrimSpace line) ''#''"
    and "elems (SplitN (Replace (TrimSpace line)) (CHR '' '') 7)
           = f1 # f2 # f3 # f4 # f5 # cmd # rest"
  shows "parseCrontabLine Parse c line =
     (case Parse (''0 '' @ Join [f1, f2, f3, f4, f5] '' '') of
        Some err \<Rightarrow>
          Inr (c, [Record ErrorLevel
                     (contextLogger
                        (createRunnable cmd (Join rest '' '')
                           (''0 '' @ Join [f1, f2, f3, f4, f5] '' '')))
                     (''unable to parse schedule'' @ err)])
      | None \<Rightarrow>
          Inr (c\<lparr>entries := entries c
                   @ [(''0 '' @ Join [f1, f2, f3, f4, f5] '' '',
                       createRunnable cmd (Join rest '' '')
                         (''0 '' @ Join [f1, f2, f3, f4, f5] '' ''))]\<rparr>,
               [logCreation (createRunnable cmd (Join rest '' '')
                              (''0 '' @ Join [f1, f2, f3, f4, f5] '' ''))]))
     \<and> length rest \<le> 1"
proof -
  let ?s = "Replace (TrimSpace line)"
  let ?sl = "SplitN ?s (CHR '' '') 7"
  from TrimSpace_first [OF assms(1)] Replace_first [of "TrimSpace line"] assms(1)
  have s: "?s \<noteq> []" "hd ?s \<noteq> CHR '' ''" by auto
  have len: "length (elems ?sl) = min (slen ?sl) (length (arr ?sl))"
    by (simp add: elems_def min.commute)
  with assms(3) have six: "6 \<le> slen ?sl" by simp
  from SplitN_seven [OF s six] have
    a7: "length (arr ?sl) = 7" and
    ar: "arr ?sl = elems ?sl @ replicate (7 - slen ?sl) []" and
    le: "slen ?sl \<le> 7" and el: "length (elems ?sl) = slen ?sl"
    by auto
  from el assms(3) have n: "slen ?sl = 6 + length rest" by simp
  with le have r1: "length rest \<le> 1" by simp
  have a: "arr ?sl = [f1, f2, f3, f4, f5, cmd, Join rest '' '']"
  proof (cases rest)
    case Nil
    with n ar assms(3) show ?thesis by simp
  next
    case (Cons a rest')
    with r1 have "rest = [a]" by simp
    with n ar assms(3) show ?thesis by simp
  qed
  have "?sl = \<lparr>arr = [f1, f2, f3, f4, f5, cmd, Join rest '' ''], slen = slen ?sl\<rparr>"
    using a by simp
  from parseCrontabLine_tokens [OF assms(1,2) this six, of Parse c] r1
  show ?thesis by blast
qed

text \<open>
  C2. A line that is blank after trimming, that starts with \<open>#\<close> after trimming, or that
  has fewer than five tokens after normalisation leaves the scheduler as it is and
  writes no record.
\<close>

theorem parseCrontabLine_ignored:
  assumes "TrimSpace line = [] \<or> HasPrefix (TrimSpace line) ''#''
           \<or> slen (SplitN (Replace (TrimSpace line)) (CHR '' '') 7) < 5"
  shows "parseCrontabLine Parse cronScheduler line = Inr (cronScheduler, [])"
  using assms by (auto simp: parseCrontabLine_def Let_def)

theorem parseCrontabLine_ignored_witness:
  "TrimSpace [CHR '' '', CHR 0x09] = []
   \<and> HasPrefix (TrimSpace '' # every minute'') ''#''
   \<and> slen (SplitN (Replace (TrimSpace ''* * * ls'')) (CHR '' '') 7) < 5
   \<and> parseCrontabLine (\<lambda>_. None) New [CHR '' '', CHR 0x09] = Inr (New, [])
   \<and> parseCrontabLine (\<lambda>_. None) New '' # every minute'' = Inr (New, [])
   \<and> parseCrontabLine (\<lambda>_. None) New ''* * * ls'' = Inr (New, [])"
proof -
  have h1: "TrimSpace [CHR '' '', CHR 0x09] = []"
    by code_simp
  have h2: "HasPrefix (TrimSpace '' # every minute'') ''#''"
    by code_simp
  have h3: "slen (SplitN (Replace (TrimSpace ''* * * ls'')) (CHR '' '') 7) < 5"
    by code_simp
  show ?thesis
    using h1 h2 h3
      parseCrontabLine_ignored [of "[CHR '' '', CHR 0x09]" "\<lambda>_. None" New]
      parseCrontabLine_ignored [of "'' # every minute''" "\<lambda>_. None" New]
      parseCrontabLine_ignored [of "''* * * ls''" "\<lambda>_. None" New]
    by blast
qed

subsection \<open>The identity of a job\<close>

text \<open>
  C6. The identity of a job is the SHA-1 of its command in hexadecimal, whatever the
  argument string and the schedule: two jobs with the same command have the same
  identity.
\<close>

theorem createRunnable_ID_of_command:
  "ID (createRunnable command args schedule) = EncodeToString (sha1 command)
   \<and> ID (createRunnable command args schedule) = ID (createRunnable command args' schedule')"
  by (simp add: createRunnable_def Let_def)

subsection \<open>The output buffer\<close>

text \<open>
  The buffer of a job is allocated once with \<open>logBufferSize\<close> bytes and never replaced, so
  the facts below are stated for a job whose buffer has that length.
\<close>

lemma length_copy_at: "pos \<le> length buf \<Longrightarrow> length (copy_at buf pos src) = length buf"
  by (auto simp: copy_at_def min_def)

lemma flush_within:
  assumes "bufferPos r \<le> length (buffer r)"
  shows "flush r =
     Inr (if bufferPos r = 0 then (r, [])
          else (r\<lparr>bufferPos := 0\<rparr>,
                [Record InfoLevel
                   (contextLogger r @ [(''output'', TrimSpace (take (bufferPos r) (buffer r)))])
                   ''command std output'']))"
  using assms by (simp add: flush_def Let_def)

lemma flush_preserves:
  assumes "length (buffer r) = logBufferSize" and "bufferPos r \<le> logBufferSize"
  shows "\<exists>r' out. flush r = Inr (r', out) \<and> bufferPos r' \<le> logBufferSize
            \<and> length (buffer r') = logBufferSize \<and> isRunning r' = isRunning r
            \<and> contextLogger r' = contextLogger r"
  using assms by (simp add: flush_within)

lemma appendLine_preserves:
  assumes "length (buffer r) = logBufferSize" and "bufferPos r \<le> logBufferSize"
  shows "\<exists>r' out. appendLine r text = Inr (r', out) \<and> bufferPos r' \<le> logBufferSize
            \<and> length (buffer r') = logBufferSize \<and> isRunning r' = isRunning r
            \<and> contextLogger r' = contextLogger r"
proof (cases "length (text @ [CHR 0x0A]) > logBufferSize")
  case True
  then show ?thesis using assms by (simp add: appendLine_def Let_def)
next
  case fits: False
  show ?thesis
  proof (cases "length (text @ [CHR 0x0A]) + bufferPos r > logBufferSize")
    case True
    then have "bufferPos r \<noteq> 0" using fits by auto
    then show ?thesis
      using assms fits True
      by (simp add: appendLine_def Let_def flush_within length_copy_at)
  next
    case False
    then show ?thesis
      using assms fits
      by (simp add: appendLine_def Let_def length_copy_at)
  qed
qed

lemma step_preserves:
  assumes "length (buffer r) = logBufferSize" and "bufferPos r \<le> logBufferSize"
  shows "\<exists>r' out. step r ev = Inr (r', out) \<and> bufferPos r' \<le> logBufferSize
            \<and> length (buffer r') = logBufferSize \<and> isRunning r' = isRunning r
            \<and> contextLogger r' = contextLogger r"
  using appendLine_preserves [OF assms] flush_preserves [OF assms]
  by (cases ev) (simp_all add: step_def)

lemma stdoutLoop_preserves:
  assumes "length (buffer r) = logBufferSize" and "bufferPos r \<le> logBufferSize"
  shows "\<exists>r' out. stdoutLoop r evs = Inr (r', out) \<and> bufferPos r' \<le> logBufferSize
            \<and> length (buffer r') = logBufferSize \<and> isRunning r' = isRunning r
            \<and> contextLogger r' = contextLogger r"
  using assms
proof (induction evs arbitrary: r)
  case Nil
  then show ?case by simp
next
  case (Cons ev evs)
  from step_preserves [OF Cons.prems, of ev] obtain r1 out1 where
    s: "step r ev = Inr (r1, out1)" and b: "bufferPos r1 \<le> logBufferSize"
    and l: "length (buffer r1) = logBufferSize" and i: "isRunning r1 = isRunning r"
    and c: "contextLogger r1 = contextLogger r"
    by blast
  from Cons.IH [OF l b] obtain r2 out2 where
    "stdoutLoop r1 evs = Inr (r2, out2)" "bufferPos r2 \<le> logBufferSize"
    "length (buffer r2) = logBufferSize" "isRunning r2 = isRunning r1"
    "contextLogger r2 = contextLogger r1"
    by blast
  then show ?case using s i c by simp
qed

lemma stdoutLoop_append:
  "stdoutLoop r (evs1 @ evs2) =
     (case stdoutLoop r evs1 of
        Inl e \<Rightarrow> Inl e
      | Inr (r1, out1) \<Rightarrow>
         (case stdoutLoop r1 evs2 of
            Inl e \<Rightarrow> Inl e
          | Inr (r2, out2) \<Rightarrow> Inr (r2, out1 @ out2)))"
  by (induction evs1 arbitrary: r) (auto split: sum.splits prod.splits)

lemma createRunnable_fields:
  "bufferPos (createRunnable command args schedule) = 0"
  "length (buffer (createRunnable command args schedule)) = logBufferSize"
  "isRunning (createRunnable command args schedule) = False"
  "Command (createRunnable command args schedule) = command"
  "Args (createRunnable command args schedule) = args"
  "Schedule (createRunnable command args schedule) = schedule"
  by (simp_all add: createRunnable_def Let_def)

text \<open>
  The scanner never delivers a line of \<open>MaxScanTokenSize\<close> bytes or more: it stops
  with \<open>ErrTooLong\<close> there. The lines \<open>Run\<close> gets from it are well below the capacity
  of the buffer.
\<close>

lemma dropCR_length: "length (dropCR s) \<le> length s"
  by (simp add: dropCR_def)

lemma scanLines_short:
  "\<forall>l \<in> set (fst (scanLines s)). length l < MaxScanTokenSize"
proof (induction s rule: scanLines.induct)
  case (1 s)
  show ?case
  proof (cases "s = []")
    case True
    then show ?thesis by (subst scanLines.simps) simp
  next
    case ne: False
    show ?thesis
    proof (cases "IndexByte s (CHR 0x0A)")
      case None
      have "length (dropCR s) \<le> length s" by (rule dropCR_length)
      with ne None show ?thesis
        by (subst scanLines.simps) auto
    next
      case (Some i)
      show ?thesis
      proof (cases "i \<ge> MaxScanTokenSize")
        case True
        with ne Some show ?thesis by (subst scanLines.simps) simp
      next
        case False
        have "length (dropCR (take i s)) \<le> length (take i s)" by (rule dropCR_length)
        then have "length (dropCR (take i s)) < MaxScanTokenSize" using False by simp
        moreover from 1 [OF ne Some False]
        have "\<forall>l \<in> set (fst (scanLines (drop (Suc i) s))). length l < MaxScanTokenSize" .
        ultimately show ?thesis
          using ne Some False
          by (subst scanLines.simps) (auto split: prod.splits)
      qed
    qed
  qed
qed

lemma scanned_lines_fit:
  "\<forall>l \<in> set (fst (Scan st)). length (l @ [CHR 0x0A]) \<le> logBufferSize"
proof -
  have "fst (Scan st) = fst (scanLines (bytes st))"
    by (simp add: Scan_def split: prod.splits bool.splits)
  with scanLines_short [of "bytes st"] show ?thesis
    by (auto simp: MaxScanTokenSize_def logBufferSize_def)
qed

text \<open>
  C3. A line of standard output whose message (the line and its line feed) is longer than
  the buffer is dropped: the job is left as it was, buffer and cursor included, and the
  only record written is the notice, which does not carry the message. In the loop, a run
  with such a line anywhere in it ends in the same job and writes the same records as the
  run without the line, the notice apart, so the message is in no flush record.
\<close>

theorem oversized_line_dropped:
  assumes "length (text @ [CHR 0x0A]) > logBufferSize"
  shows "appendLine r text
           = Inr (r, [Record InfoLevel (contextLogger r) ''message received was too large''])
     \<and> stdoutLoop r (evs1 @ Line text # evs2)
         = (case stdoutLoop r evs1 of
              Inl e \<Rightarrow> Inl e
            | Inr (r1, out1) \<Rightarrow>
               (case stdoutLoop r1 evs2 of
                  Inl e \<Rightarrow> Inl e
                | Inr (r2, out2) \<Rightarrow>
                    Inr (r2, out1 @ Record InfoLevel (contextLogger r1)
                                      ''message received was too large'' # out2)))"
proof -
  have a: "\<And>r. appendLine r text
           = Inr (r, [Record InfoLevel (contextLogger r) ''message received was too large''])"
    using assms by (simp add: appendLine_def Let_def)
  have "stdoutLoop r (evs1 @ Line text # evs2)
         = (case stdoutLoop r evs1 of
              Inl e \<Rightarrow> Inl e
            | Inr (r1, out1) \<Rightarrow>
               (case stdoutLoop r1 evs2 of
                  Inl e \<Rightarrow> Inl e
                | Inr (r2, out2) \<Rightarrow>
                    Inr (r2, out1 @ Record InfoLevel (contextLogger r1)
                                      ''message received was too large'' # out2)))"
    by (simp add: stdoutLoop_append step_def a split: sum.splits prod.splits)
  with a show ?thesis by blast
qed

theorem oversized_line_dropped_witness:
  "length (replicate 524288 (CHR ''a'') @ [CHR 0x0A]) > logBufferSize
   \<and> appendLine (createRunnable ''ls'' [] ''0 * * * * *'') (replicate 524288 (CHR ''a''))
       = Inr (createRunnable ''ls'' [] ''0 * * * * *'',
              [Record InfoLevel (contextLogger (createRunnable ''ls'' [] ''0 * * * * *''))
                 ''message received was too large''])"
proof -
  have h: "length (replicate 524288 (CHR ''a'') @ [CHR 0x0A]) > logBufferSize"
    by (simp add: logBufferSize_def)
  from oversized_line_dropped [OF h, of "createRunnable ''ls'' [] ''0 * * * * *''" "[]" "[]"] h
  show ?thesis by blast
qed

text \<open>
  C4. The cursor is at most the capacity in a new job, after every append step and after
  every flush; neither step fails on a job that satisfies this.
\<close>

theorem cursor_within_capacity:
  assumes "length (buffer r) = logBufferSize" and "bufferPos r \<le> logBufferSize"
  shows "bufferPos (createRunnable command args schedule) \<le> logBufferSize
     \<and> length (buffer (createRunnable command args schedule)) = logBufferSize
     \<and> (\<exists>r' out. appendLine r text = Inr (r', out) \<and> bufferPos r' \<le> logBufferSize
            \<and> length (buffer r') = logBufferSize)
     \<and> (\<exists>r' out. flush r = Inr (r', out) \<and> bufferPos r' \<le> logBufferSize
            \<and> length (buffer r') = logBufferSize)"
proof -
  have "bufferPos (createRunnable command args schedule) \<le> logBufferSize"
    and "length (buffer (createRunnable command args schedule)) = logBufferSize"
    by (simp_all add: createRunnable_def Let_def)
  moreover from appendLine_preserves [OF assms, of "text"]
  have "\<exists>r' out. appendLine r text = Inr (r', out) \<and> bufferPos r' \<le> logBufferSize
            \<and> length (buffer r') = logBufferSize"
    by blast
  moreover from flush_preserves [OF assms]
  have "\<exists>r' out. flush r = Inr (r', out) \<and> bufferPos r' \<le> logBufferSize
            \<and> length (buffer r') = logBufferSize"
    by blast
  ultimately show ?thesis by blast
qed

theorem cursor_within_capacity_witness:
  "length (buffer (createRunnable ''ls'' [] ''0 * * * * *'')) = logBufferSize
   \<and> bufferPos (createRunnable ''ls'' [] ''0 * * * * *'') \<le> logBufferSize
   \<and> (\<exists>r' out. appendLine (createRunnable ''ls'' [] ''0 * * * * *'') ''hello'' = Inr (r', out)
         \<and> bufferPos r' \<le> logBufferSize)
   \<and> (\<exists>r' out. flush (createRunnable ''ls'' [] ''0 * * * * *'') = Inr (r', out)
         \<and> bufferPos r' \<le> logBufferSize)"
proof -
  have h1: "length (buffer (createRunnable ''ls'' [] ''0 * * * * *'')) = logBufferSize"
    by (simp add: createRunnable_fields)
  have h2: "bufferPos (createRunnable ''ls'' [] ''0 * * * * *'') \<le> logBufferSize"
    by (simp add: createRunnable_fields)
  from cursor_within_capacity [OF h1 h2, of "''ls''" "[]" "''0 * * * * *''" "''hello''"] h1 h2
  show ?thesis by blast
qed

text \<open>
  C5. When a message fits the buffer alone but not behind the cursor, the bytes before the
  cursor are flushed first: one record with exactly these bytes, trimmed, and the cursor
  back at 0. The message is then written at the start of the buffer and the cursor is
  its length.
\<close>

theorem overflow_flushes_first:
  assumes "length (buffer r) = logBufferSize" and "bufferPos r \<le> logBufferSize"
    and "length (text @ [CHR 0x0A]) \<le> logBufferSize"
    and "length (text @ [CHR 0x0A]) + bufferPos r > logBufferSize"
  shows "flush r = Inr (r\<lparr>bufferPos := 0\<rparr>,
                        [Record InfoLevel
                           (contextLogger r
                              @ [(''output'', TrimSpace (take (bufferPos r) (buffer r)))])
                           ''command std output''])
     \<and> appendLine r text
         = Inr (r\<lparr>buffer := copy_at (buffer r) 0 (text @ [CHR 0x0A]),
                   bufferPos := length (text @ [CHR 0x0A])\<rparr>,
                [Record InfoLevel
                   (contextLogger r
                      @ [(''output'', TrimSpace (take (bufferPos r) (buffer r)))])
                   ''command std output''])
     \<and> take (length (text @ [CHR 0x0A])) (copy_at (buffer r) 0 (text @ [CHR 0x0A]))
         = text @ [CHR 0x0A]"
proof -
  have nz: "bufferPos r \<noteq> 0" using assms(3,4) by auto
  have f: "flush r = Inr (r\<lparr>bufferPos := 0\<rparr>,
                        [Record InfoLevel
                           (contextLogger r
                              @ [(''output'', TrimSpace (take (bufferPos r) (buffer r)))])
                           ''command std output''])"
    using assms(1,2) nz by (simp add: flush_within)
  have a: "appendLine r text
         = Inr (r\<lparr>buffer := copy_at (buffer r) 0 (text @ [CHR 0x0A]),
                   bufferPos := length (text @ [CHR 0x0A])\<rparr>,
                [Record InfoLevel
                   (contextLogger r
                      @ [(''output'', TrimSpace (take (bufferPos r) (buffer r)))])
                   ''command std output''])"
    using assms(3,4) by (simp add: appendLine_def Let_def f)
  have t: "take (length (text @ [CHR 0x0A])) (copy_at (buffer r) 0 (text @ [CHR 0x0A]))
         = text @ [CHR 0x0A]"
    using assms(1,3) by (simp add: copy_at_def)
  show ?thesis using f a t by blast
qed

theorem overflow_flushes_first_witness:
  "appendLine (createRunnable ''ls'' [] ''0 * * * * *'') (replicate 524287 (CHR ''a''))
     = Inr ((createRunnable ''ls'' [] ''0 * * * * *'')
              \<lparr>buffer := replicate 524287 (CHR ''a'') @ [CHR 0x0A], bufferPos := 524288\<rparr>, [])
   \<and> appendLine ((createRunnable ''ls'' [] ''0 * * * * *'')
                    \<lparr>buffer := replicate 524287 (CHR ''a'') @ [CHR 0x0A], bufferPos := 524288\<rparr>) ''x''
     = Inr ((createRunnable ''ls'' [] ''0 * * * * *'')
              \<lparr>buffer := [CHR ''x'', CHR 0x0A] @ replicate 524285 (CHR ''a'') @ [CHR 0x0A],
               bufferPos := 2\<rparr>,
            [Record InfoLevel
               (contextLogger (createRunnable ''ls'' [] ''0 * * * * *'')
                  @ [(''output'', TrimSpace (replicate 524287 (CHR ''a'') @ [CHR 0x0A]))])
               ''command std output''])"
proof -
  let ?r0 = "createRunnable ''ls'' [] ''0 * * * * *''"
  let ?r1 = "?r0\<lparr>buffer := replicate 524287 (CHR ''a'') @ [CHR 0x0A], bufferPos := 524288\<rparr>"
  have first: "appendLine ?r0 (replicate 524287 (CHR ''a'')) = Inr (?r1, [])"
    by (simp add: appendLine_def Let_def createRunnable_fields logBufferSize_def copy_at_def)
  have h1: "length (buffer ?r1) = logBufferSize" by (simp add: logBufferSize_def)
  have h2: "bufferPos ?r1 \<le> logBufferSize" by (simp add: logBufferSize_def)
  have h3: "length (''x'' @ [CHR 0x0A]) \<le> logBufferSize" by (simp add: logBufferSize_def)
  have h4: "length (''x'' @ [CHR 0x0A]) + bufferPos ?r1 > logBufferSize"
    by (simp add: logBufferSize_def)
  have c: "copy_at (replicate 524287 (CHR ''a'') @ [CHR 0x0A]) 0 (''x'' @ [CHR 0x0A])
             = [CHR ''x'', CHR 0x0A] @ replicate 524285 (CHR ''a'') @ [CHR 0x0A]"
  proof -
    have "replicate 524287 (CHR ''a'') = replicate 2 (CHR ''a'') @ replicate 524285 (CHR ''a'')"
      by (simp add: replicate_add [symmetric])
    then show ?thesis by (simp add: copy_at_def)
  qed
  from overflow_flushes_first [OF h1 h2 h3 h4] have
    "appendLine ?r1 ''x''
       = Inr (?r1\<lparr>buffer := copy_at (buffer ?r1) 0 (''x'' @ [CHR 0x0A]),
                   bufferPos := length (''x'' @ [CHR 0x0A])\<rparr>,
              [Record InfoLevel
                 (contextLogger ?r1 @ [(''output'', TrimSpace (take (bufferPos ?r1) (buffer ?r1)))])
                 ''command std output''])"
    by blast
  then have "appendLine ?r1 ''x''
     = Inr (?r0\<lparr>buffer := [CHR ''x'', CHR 0x0A] @ replicate 524285 (CHR ''a'') @ [CHR 0x0A],
               bufferPos := 2\<rparr>,
            [Record InfoLevel
               (contextLogger ?r0
                  @ [(''output'', TrimSpace (replicate 524287 (CHR ''a'') @ [CHR 0x0A]))])
               ''command std output''])"
    using c by simp
  with first show ?thesis by blast
qed

subsection \<open>Running a job\<close>

text \<open>
  C7. When the command is not found on the path, \<open>Run\<close> writes the error and returns the
  job as it was: nothing is started, the running flag and the cursor are untouched. A
  scheduler that fired the job holds the same registrations afterwards, so the job fires
  again at its next time.
\<close>

theorem Run_unresolvable_command:
  assumes "LookPath (Command r) = Some err"
    and "i < length (entries c)" and "entries c ! i = (spec, r)"
  shows "Run cfg LookPath spawn r = Inr (r, [Record ErrorLevel (contextLogger r) err], [])
     \<and> fire cfg LookPath spawn c i = Inr (c, [Record ErrorLevel (contextLogger r) err], [])"
proof -
  have run: "Run cfg LookPath spawn r = Inr (r, [Record ErrorLevel (contextLogger r) err], [])"
    using assms(1) by (simp add: Run_def)
  have "(entries c)[i := (spec, r)] = entries c"
    using assms(3) by (metis list_update_id)
  then have "fire cfg LookPath spawn c i = Inr (c, [Record ErrorLevel (contextLogger r) err], [])"
    using assms(2,3) run by (simp add: fire_def)
  with run show ?thesis by blast
qed

theorem Run_unresolvable_command_witness:
  "Run \<lparr>executer = ''/bin/sh'', SHELL = ''/bin/sh'', crontab = ''/etc/crontab''\<rparr>
       (\<lambda>_. Some ''executable file not found'')
       (\<lambda>_. \<lparr>stdoutPipeErr = None, stderrPipeErr = None, startErr = None,
              stdout = \<lparr>bytes = ''hello'', readErr = None\<rparr>,
              stderr = \<lparr>bytes = [], readErr = None\<rparr>, waitErr = None, tick = (\<lambda>_. False)\<rparr>)
       (createRunnable ''nosuchcmd'' [] ''0 * * * * *'')
     = Inr (createRunnable ''nosuchcmd'' [] ''0 * * * * *'',
            [Record ErrorLevel (contextLogger (createRunnable ''nosuchcmd'' [] ''0 * * * * *''))
               ''executable file not found''], [])
   \<and> fire \<lparr>executer = ''/bin/sh'', SHELL = ''/bin/sh'', crontab = ''/etc/crontab''\<rparr>
       (\<lambda>_. Some ''executable file not found'')
       (\<lambda>_. \<lparr>stdoutPipeErr = None, stderrPipeErr = None, startErr = None,
              stdout = \<lparr>bytes = ''hello'', readErr = None\<rparr>,
              stderr = \<lparr>bytes = [], readErr = None\<rparr>, waitErr = None, tick = (\<lambda>_. False)\<rparr>)
       \<lparr>entries = [(''0 * * * * *'', createRunnable ''nosuchcmd'' [] ''0 * * * * *'')],
        running = True\<rparr> 0
     = Inr (\<lparr>entries = [(''0 * * * * *'', createRunnable ''nosuchcmd'' [] ''0 * * * * *'')],
             running = True\<rparr>,
            [Record ErrorLevel (contextLogger (createRunnable ''nosuchcmd'' [] ''0 * * * * *''))
               ''executable file not found''], [])"
proof -
  let ?r = "createRunnable ''nosuchcmd'' [] ''0 * * * * *''"
  let ?c = "\<lparr>entries = [(''0 * * * * *'', ?r)], running = True\<rparr>"
  have h1: "(\<lambda>_. Some ''executable file not found'') (Command ?r) = Some ''executable file not found''"
    by simp
  have h2: "0 < length (entries ?c)" by simp
  have h3: "entries ?c ! 0 = (''0 * * * * *'', ?r)" by simp
  show ?thesis
    by (rule Run_unresolvable_command [OF h1 h2 h3])
qed

text \<open>
  Once the command is found and both pipes are there, \<open>Run\<close> sets the running flag, runs
  the loop over standard output from that job, and returns with the flag cleared after
  \<open>Start\<close> and \<open>Wait\<close> on the command it built.
\<close>

lemma Run_started:
  assumes "LookPath (Command r) = None"
    and "stdoutPipeErr (spawn (buildCmd cfg r)) = None"
    and "stderrPipeErr (spawn (buildCmd cfg r)) = None"
    and "length (buffer r) = logBufferSize" and "bufferPos r \<le> logBufferSize"
  shows "\<exists>r2 outLog.
           stdoutLoop (r\<lparr>isRunning := True\<rparr>)
               (interleave (tick (spawn (buildCmd cfg r))) 0
                  (fst (Scan (stdout (spawn (buildCmd cfg r))))))
             = Inr (r2, outLog)
           \<and> isRunning r2 \<and> contextLogger r2 = contextLogger r
           \<and> Run cfg LookPath spawn r
               = Inr (r2\<lparr>isRunning := False\<rparr>,
                      logError (r\<lparr>isRunning := True\<rparr>) (startErr (spawn (buildCmd cfg r)))
                        @ outLog
                        @ logError r2 (snd (Scan (stdout (spawn (buildCmd cfg r)))))
                        @ stderrLoop r2 (fst (Scan (stderr (spawn (buildCmd cfg r)))))
                        @ logError r2 (snd (Scan (stderr (spawn (buildCmd cfg r)))))
                        @ logError r2 (waitErr (spawn (buildCmd cfg r))),
                      [StartCalled (buildCmd cfg r), WaitCalled (buildCmd cfg r)])"
proof -
  let ?p = "spawn (buildCmd cfg r)"
  let ?r1 = "r\<lparr>isRunning := True\<rparr>"
  have "length (buffer ?r1) = logBufferSize" "bufferPos ?r1 \<le> logBufferSize"
    using assms(4,5) by simp_all
  from stdoutLoop_preserves [OF this, of "interleave (tick ?p) 0 (fst (Scan (stdout ?p)))"]
  obtain r2 outLog where
    loop: "stdoutLoop ?r1 (interleave (tick ?p) 0 (fst (Scan (stdout ?p)))) = Inr (r2, outLog)"
    and run2: "isRunning r2 = isRunning ?r1" and ctx: "contextLogger r2 = contextLogger ?r1"
    by blast
  have "Run cfg LookPath spawn r
               = Inr (r2\<lparr>isRunning := False\<rparr>,
                      logError ?r1 (startErr ?p) @ outLog
                        @ logError r2 (snd (Scan (stdout ?p)))
                        @ stderrLoop r2 (fst (Scan (stderr ?p)))
                        @ logError r2 (snd (Scan (stderr ?p)))
                        @ logError r2 (waitErr ?p),
                      [StartCalled (buildCmd cfg r), WaitCalled (buildCmd cfg r)])"
    using assms(1,2,3) loop
    by (simp add: Run_def Let_def split_beta)
  with loop run2 ctx show ?thesis by auto
qed

text \<open>
  C8. The command line: with the executer \<open>go\<close> the command itself, its arguments the
  argument string split at every space; otherwise the shell of \<open>SHELL\<close> with \<open>-c\<close> and
  the command, a space and the argument string as one string. It is this command line
  that \<open>Run\<close> starts and waits for.
\<close>

theorem Run_invocation:
  assumes "LookPath (Command r) = None"
    and "stdoutPipeErr (spawn (buildCmd cfg r)) = None"
    and "stderrPipeErr (spawn (buildCmd cfg r)) = None"
    and "length (buffer r) = logBufferSize" and "bufferPos r \<le> logBufferSize"
  shows "buildCmd cfg r
           = (if executer cfg = ''go''
              then \<lparr>name = Command r, argv = Split (Args r) (CHR '' '')\<rparr>
              else \<lparr>name = SHELL cfg, argv = [''-c'', Command r @ '' '' @ Args r]\<rparr>)
     \<and> Join (Split (Args r) (CHR '' '')) '' '' = Args r
     \<and> (\<forall>a \<in> set (Split (Args r) (CHR '' '')). CHR '' '' \<notin> set a)
     \<and> (\<exists>r' out. Run cfg LookPath spawn r
                    = Inr (r', out, [StartCalled (buildCmd cfg r), WaitCalled (buildCmd cfg r)]))"
proof -
  have "buildCmd cfg r
           = (if executer cfg = ''go''
              then \<lparr>name = Command r, argv = Split (Args r) (CHR '' '')\<rparr>
              else \<lparr>name = SHELL cfg, argv = [''-c'', Command r @ '' '' @ Args r]\<rparr>)"
    by (simp add: buildCmd_def Let_def)
  moreover have "Join (Split (Args r) (CHR '' '')) '' '' = Args r"
    by (rule Split_pieces(1))
  moreover have "\<forall>a \<in> set (Split (Args r) (CHR '' '')). CHR '' '' \<notin> set a"
    by (rule Split_pieces(2))
  moreover from Run_started [where LookPath = LookPath and spawn = spawn and cfg = cfg, OF assms]
  have "\<exists>r' out. Run cfg LookPath spawn r
                    = Inr (r', out, [StartCalled (buildCmd cfg r), WaitCalled (buildCmd cfg r)])"
    by blast
  ultimately show ?thesis by blast
qed

theorem Run_invocation_witness:
  "buildCmd \<lparr>executer = ''go'', SHELL = ''/bin/sh'', crontab = ''/etc/crontab''\<rparr>
       (createRunnable ''ls'' ''-l /tmp'' ''0 * * * * *'')
     = \<lparr>name = ''ls'', argv = [''-l'', ''/tmp'']\<rparr>
   \<and> buildCmd \<lparr>executer = ''/bin/bash'', SHELL = ''/bin/sh'', crontab = ''/etc/crontab''\<rparr>
       (createRunnable ''ls'' ''-l /tmp'' ''0 * * * * *'')
     = \<lparr>name = ''/bin/sh'', argv = [''-c'', ''ls -l /tmp'']\<rparr>
   \<and> (\<exists>r' out.
        Run \<lparr>executer = ''go'', SHELL = ''/bin/sh'', crontab = ''/etc/crontab''\<rparr>
          (\<lambda>_. None)
          (\<lambda>_. \<lparr>stdoutPipeErr = None, stderrPipeErr = None, startErr = None,
                 stdout = \<lparr>bytes = ''hello'', readErr = None\<rparr>,
                 stderr = \<lparr>bytes = [], readErr = None\<rparr>, waitErr = None, tick = (\<lambda>_. False)\<rparr>)
          (createRunnable ''ls'' ''-l /tmp'' ''0 * * * * *'')
        = Inr (r', out, [StartCalled \<lparr>name = ''ls'', argv = [''-l'', ''/tmp'']\<rparr>,
                         WaitCalled \<lparr>name = ''ls'', argv = [''-l'', ''/tmp'']\<rparr>]))
   \<and> (\<exists>r' out.
        Run \<lparr>executer = ''/bin/bash'', SHELL = ''/bin/sh'', crontab = ''/etc/crontab''\<rparr>
          (\<lambda>_. None)
          (\<lambda>_. \<lparr>stdoutPipeErr = None, stderrPipeErr = None, startErr = None,
                 stdout = \<lparr>bytes = ''hello'', readErr = None\<rparr>,
                 stderr = \<lparr>bytes = [], readErr = None\<rparr>, waitErr = None, tick = (\<lambda>_. False)\<rparr>)
          (createRunnable ''ls'' ''-l /tmp'' ''0 * * * * *'')
        = Inr (r', out, [StartCalled \<lparr>name = ''/bin/sh'', argv = [''-c'', ''ls -l /tmp'']\<rparr>,
                         WaitCalled \<lparr>name = ''/bin/sh'', argv = [''-c'', ''ls -l /tmp'']\<rparr>]))"
proof -
  let ?r = "createRunnable ''ls'' ''-l /tmp'' ''0 * * * * *''"
  let ?go = "\<lparr>executer = ''go'', SHELL = ''/bin/sh'', crontab = ''/etc/crontab''\<rparr>"
  let ?sh = "\<lparr>executer = ''/bin/bash'', SHELL = ''/bin/sh'', crontab = ''/etc/crontab''\<rparr>"
  let ?spawn = "\<lambda>_::invocation. \<lparr>stdoutPipeErr = None, stderrPipeErr = None, startErr = None,
                 stdout = \<lparr>bytes = ''hello'', readErr = None\<rparr>,
                 stderr = \<lparr>bytes = [], readErr = None\<rparr>, waitErr = None, tick = (\<lambda>_. False)\<rparr>"
  have sp: "Split ''-l /tmp'' (CHR '' '') = [''-l'', ''/tmp'']"
    by code_simp
  have h1: "(\<lambda>_. None) (Command ?r) = None" by simp
  have h4: "length (buffer ?r) = logBufferSize" by (simp add: createRunnable_fields)
  have h5: "bufferPos ?r \<le> logBufferSize" by (simp add: createRunnable_fields)
  have go: "stdoutPipeErr (?spawn (buildCmd ?go ?r)) = None"
    "stderrPipeErr (?spawn (buildCmd ?go ?r)) = None" by simp_all
  have sh: "stdoutPipeErr (?spawn (buildCmd ?sh ?r)) = None"
    "stderrPipeErr (?spawn (buildCmd ?sh ?r)) = None" by simp_all
  note go_inst = Run_invocation [where LookPath = "\<lambda>_. None" and spawn = ?spawn
      and cfg = ?go and r = ?r, OF h1 go h4 h5]
  from go_inst have "buildCmd ?go ?r
      = (if executer ?go = ''go''
         then \<lparr>name = Command ?r, argv = Split (Args ?r) (CHR '' '')\<rparr>
         else \<lparr>name = SHELL ?go, argv = [''-c'', Command ?r @ '' '' @ Args ?r]\<rparr>)"
    by blast
  then have a: "buildCmd ?go ?r = \<lparr>name = ''ls'', argv = [''-l'', ''/tmp'']\<rparr>"
    by (simp add: createRunnable_fields sp)
  from go_inst
  have a': "\<exists>r' out. Run ?go (\<lambda>_. None) ?spawn ?r
               = Inr (r', out, [StartCalled (buildCmd ?go ?r), WaitCalled (buildCmd ?go ?r)])"
    by blast
  note sh_inst = Run_invocation [where LookPath = "\<lambda>_. None" and spawn = ?spawn
      and cfg = ?sh and r = ?r, OF h1 sh h4 h5]
  from sh_inst have "buildCmd ?sh ?r
      = (if executer ?sh = ''go''
         then \<lparr>name = Command ?r, argv = Split (Args ?r) (CHR '' '')\<rparr>
         else \<lparr>name = SHELL ?sh, argv = [''-c'', Command ?r @ '' '' @ Args ?r]\<rparr>)"
    by blast
  then have b: "buildCmd ?sh ?r = \<lparr>name = ''/bin/sh'', argv = [''-c'', ''ls -l /tmp'']\<rparr>"
    by (simp add: createRunnable_fields)
  from sh_inst
  have b': "\<exists>r' out. Run ?sh (\<lambda>_. None) ?spawn ?r
               = Inr (r', out, [StartCalled (buildCmd ?sh ?r), WaitCalled (buildCmd ?sh ?r)])"
    by blast
  from a' have a2: "\<exists>r' out. Run ?go (\<lambda>_. None) ?spawn ?r
               = Inr (r', out, [StartCalled \<lparr>name = ''ls'', argv = [''-l'', ''/tmp'']\<rparr>,
                                WaitCalled \<lparr>name = ''ls'', argv = [''-l'', ''/tmp'']\<rparr>])"
    unfolding a .
  from b' have b2: "\<exists>r' out. Run ?sh (\<lambda>_. None) ?spawn ?r
               = Inr (r', out, [StartCalled \<lparr>name = ''/bin/sh'', argv = [''-c'', ''ls -l /tmp'']\<rparr>,
                                WaitCalled \<lparr>name = ''/bin/sh'', argv = [''-c'', ''ls -l /tmp'']\<rparr>])"
    unfolding b .
  show ?thesis by (intro conjI a a2 b b2)
qed

text \<open>
  C10. When \<open>Start\<close> fails, its error is written and \<open>Run\<close> goes on: the loop over
  standard output runs from the job with the running flag set, the lines of standard
  error are written, \<open>Wait\<close> is called, and the flag is cleared in the job returned.
\<close>

theorem Run_start_failure_continues:
  assumes "LookPath (Command r) = None"
    and "stdoutPipeErr (spawn (buildCmd cfg r)) = None"
    and "stderrPipeErr (spawn (buildCmd cfg r)) = None"
    and "length (buffer r) = logBufferSize" and "bufferPos r \<le> logBufferSize"
    and "startErr (spawn (buildCmd cfg r)) = Some err"
  shows "\<exists>r2 outLog.
           stdoutLoop (r\<lparr>isRunning := True\<rparr>)
               (interleave (tick (spawn (buildCmd cfg r))) 0
                  (fst (Scan (stdout (spawn (buildCmd cfg r))))))
             = Inr (r2, outLog)
           \<and> isRunning r2
           \<and> Run cfg LookPath spawn r
               = Inr (r2\<lparr>isRunning := False\<rparr>,
                      Record ErrorLevel (contextLogger r) err # outLog
                        @ logError r2 (snd (Scan (stdout (spawn (buildCmd cfg r)))))
                        @ stderrLoop r2 (fst (Scan (stderr (spawn (buildCmd cfg r)))))
                        @ logError r2 (snd (Scan (stderr (spawn (buildCmd cfg r)))))
                        @ logError r2 (waitErr (spawn (buildCmd cfg r))),
                      [StartCalled (buildCmd cfg r), WaitCalled (buildCmd cfg r)])"
  using Run_started [where LookPath = LookPath and spawn = spawn and cfg = cfg, OF assms(1-5)]
    assms(6)
  by (auto simp: logError_def)

theorem Run_start_failure_continues_witness:
  "Run \<lparr>executer = ''/bin/bash'', SHELL = ''/bin/sh'', crontab = ''/etc/crontab''\<rparr>
       (\<lambda>_. None)
       (\<lambda>_. \<lparr>stdoutPipeErr = None, stderrPipeErr = None,
              startErr = Some ''fork/exec /bin/sh: resource temporarily unavailable'',
              stdout = \<lparr>bytes = [], readErr = Some ''file already closed''\<rparr>,
              stderr = \<lparr>bytes = [], readErr = Some ''file already closed''\<rparr>,
              waitErr = Some ''exec: not started'', tick = (\<lambda>_. False)\<rparr>)
       (createRunnable ''ls'' ''-l'' ''0 * * * * *'')
     = Inr ((createRunnable ''ls'' ''-l'' ''0 * * * * *'')\<lparr>isRunning := False\<rparr>,
            [Record ErrorLevel (contextLogger (createRunnable ''ls'' ''-l'' ''0 * * * * *''))
               ''fork/exec /bin/sh: resource temporarily unavailable'',
             Record ErrorLevel (contextLogger (createRunnable ''ls'' ''-l'' ''0 * * * * *''))
               ''file already closed'',
             Record ErrorLevel (contextLogger (createRunnable ''ls'' ''-l'' ''0 * * * * *''))
               ''file already closed'',
             Record ErrorLevel (contextLogger (createRunnable ''ls'' ''-l'' ''0 * * * * *''))
               ''exec: not started''],
            [StartCalled \<lparr>name = ''/bin/sh'', argv = [''-c'', ''ls -l'']\<rparr>,
             WaitCalled \<lparr>name = ''/bin/sh'', argv = [''-c'', ''ls -l'']\<rparr>])"
proof -
  let ?r = "createRunnable ''ls'' ''-l'' ''0 * * * * *''"
  let ?cfg = "\<lparr>executer = ''/bin/bash'', SHELL = ''/bin/sh'', crontab = ''/etc/crontab''\<rparr>"
  let ?p = "\<lparr>stdoutPipeErr = None, stderrPipeErr = None,
              startErr = Some ''fork/exec /bin/sh: resource temporarily unavailable'',
              stdout = \<lparr>bytes = [], readErr = Some ''file already closed''\<rparr>,
              stderr = \<lparr>bytes = [], readErr = Some ''file already closed''\<rparr>,
              waitErr = Some ''exec: not started'', tick = (\<lambda>_. False)\<rparr>"
  let ?spawn = "\<lambda>_::invocation. ?p"
  have h1: "(\<lambda>_. None) (Command ?r) = None" by simp
  have h2: "stdoutPipeErr (?spawn (buildCmd ?cfg ?r)) = None" by simp
  have h3: "stderrPipeErr (?spawn (buildCmd ?cfg ?r)) = None" by simp
  have h4: "length (buffer ?r) = logBufferSize" by (simp add: createRunnable_fields)
  have h5: "bufferPos ?r \<le> logBufferSize" by (simp add: createRunnable_fields)
  have h6: "startErr (?spawn (buildCmd ?cfg ?r))
              = Some ''fork/exec /bin/sh: resource temporarily unavailable''" by simp
  have sc: "Scan \<lparr>bytes = [], readErr = Some ''file already closed''\<rparr>
              = ([], Some ''file already closed'')"
    by (simp add: Scan_def scanLines.simps)
  have bc: "buildCmd ?cfg ?r = \<lparr>name = ''/bin/sh'', argv = [''-c'', ''ls -l'']\<rparr>"
    by (simp add: buildCmd_def createRunnable_fields)
  from Run_start_failure_continues
         [where LookPath = "\<lambda>_. None" and spawn = ?spawn and cfg = ?cfg and r = ?r,
          OF h1 h2 h3 h4 h5 h6]
  show ?thesis
    by (auto simp: sc bc logError_def stderrLoop_def)
qed

subsection \<open>Reloading the crontab\<close>

lemma parseCrontabLine_grows:
  assumes "parseCrontabLine Parse c l = Inr (c', out)"
  shows "length (entries c') \<le> Suc (length (entries c))"
  using assms
  by (auto simp: parseCrontabLine_def Let_def AddJob_def
        split: if_splits sum.splits option.splits)

lemma parseLines_grows:
  "parseLines Parse c ls = Inr (c', out) \<Longrightarrow> length (entries c') \<le> length (entries c) + length ls"
proof (induction ls arbitrary: c out)
  case Nil
  then show ?case by simp
next
  case (Cons l ls)
  from Cons.prems obtain c1 out1 out2 where
    one: "parseCrontabLine Parse c l = Inr (c1, out1)" and
    rest: "parseLines Parse c1 ls = Inr (c', out2)"
    by (auto split: sum.splits prod.splits)
  from parseCrontabLine_grows [OF one] Cons.IH [OF rest] show ?case by simp
qed

text \<open>
  Whatever the scheduler before the reload holds, the reload ends the same way: with the
  same failure, or with the same new scheduler and the same records.
\<close>

lemma initCron_prior_irrelevant:
  "map_sum id snd (initCron cfg Parse Open c) = map_sum id snd (initCron cfg Parse Open c')"
  by (simp add: initCron_def Let_def split: sum.splits prod.splits option.splits)

text \<open>
  C9. A reload that succeeds gives a scheduler that depends on the file alone: from any
  scheduler before it, the same file gives the same registrations, flag and records, so
  a second reload on the result of the first gives it again. The registrations are those
  of parsing the lines into a new, empty scheduler, at most one for a line; nothing of the
  scheduler before the reload is in them.
\<close>

theorem initCron_idempotent:
  assumes "initCron cfg Parse Open c0 = Inr (old1, c1, out1)"
  shows "initCron cfg Parse Open c1 = Inr (Stop c1, c1, out1)
     \<and> (\<forall>c. initCron cfg Parse Open c = Inr (Stop c, c1, out1))
     \<and> (\<exists>file c' out'. Open (crontab cfg) = Inr file
           \<and> parseLines Parse New (fst (Scan file)) = Inr (c', out')
           \<and> entries c1 = entries c'
           \<and> length (entries c1) \<le> length (fst (Scan file)))"
proof -
  from assms obtain fl where opened: "Open (crontab cfg) = Inr fl"
    by (auto simp: initCron_def Let_def split: sum.splits)
  obtain ls scanErr where scan: "Scan fl = (ls, scanErr)"
    by (cases "Scan fl")
  from assms opened scan obtain c' out' where pl: "parseLines Parse New ls = Inr (c', out')"
    by (auto simp: initCron_def Let_def split: sum.splits)
  have res: "\<And>c. initCron cfg Parse Open c =
      Inr (Stop c,
           (case scanErr of Some err \<Rightarrow> c' | None \<Rightarrow> Start c'),
           (case scanErr of
              Some err \<Rightarrow> out' @ [Record ErrorLevel [] (''failed reading crontab'' @ err)]
            | None \<Rightarrow> out'))"
    using opened scan pl by (simp add: initCron_def Let_def split: option.splits)
  from res [of c0] assms have c1: "c1 = (case scanErr of Some err \<Rightarrow> c' | None \<Rightarrow> Start c')"
    and out1: "out1 = (case scanErr of
              Some err \<Rightarrow> out' @ [Record ErrorLevel [] (''failed reading crontab'' @ err)]
            | None \<Rightarrow> out')"
    by simp_all
  have all: "\<forall>c. initCron cfg Parse Open c = Inr (Stop c, c1, out1)"
    using res c1 out1 by simp
  have ent: "entries c1 = entries c'"
    using c1 by (simp add: Start_def split: option.splits)
  have "length (entries c') \<le> length ls"
    using parseLines_grows [OF pl] by (simp add: New_def)
  with ent opened scan pl all show ?thesis by auto
qed

theorem initCron_idempotent_witness:
  "initCron \<lparr>executer = ''/bin/sh'', SHELL = ''/bin/sh'', crontab = ''/etc/crontab''\<rparr>
       (\<lambda>_. None)
       (\<lambda>_. Inr \<lparr>bytes = ''# jobs\<newline>*/5 * * * * curl http://example.com\<newline>'',
                  readErr = None\<rparr>)
       \<lparr>entries = [(''0 0 2 * * *'', createRunnable ''/bin/backup.sh'' ''--full'' ''0 0 2 * * *'')],
        running = True\<rparr>
     = Inr (\<lparr>entries = [(''0 0 2 * * *'',
                         createRunnable ''/bin/backup.sh'' ''--full'' ''0 0 2 * * *'')],
             running = False\<rparr>,
            \<lparr>entries = [(''0 */5 * * * *'',
                         createRunnable ''curl'' ''http://example.com'' ''0 */5 * * * *'')],
             running = True\<rparr>,
            [logCreation (createRunnable ''curl'' ''http://example.com'' ''0 */5 * * * *'')])
   \<and> initCron \<lparr>executer = ''/bin/sh'', SHELL = ''/bin/sh'', crontab = ''/etc/crontab''\<rparr>
       (\<lambda>_. None)
       (\<lambda>_. Inr \<lparr>bytes = ''# jobs\<newline>*/5 * * * * curl http://example.com\<newline>'',
                  readErr = None\<rparr>)
       \<lparr>entries = [(''0 */5 * * * *'',
                    createRunnable ''curl'' ''http://example.com'' ''0 */5 * * * *'')],
        running = True\<rparr>
     = Inr (\<lparr>entries = [(''0 */5 * * * *'',
                         createRunnable ''curl'' ''http://example.com'' ''0 */5 * * * *'')],
             running = False\<rparr>,
            \<lparr>entries = [(''0 */5 * * * *'',
                         createRunnable ''curl'' ''http://example.com'' ''0 */5 * * * *'')],
             running = True\<rparr>,
            [logCreation (createRunnable ''curl'' ''http://example.com'' ''0 */5 * * * *'')])"
proof -
  let ?cfg = "\<lparr>executer = ''/bin/sh'', SHELL = ''/bin/sh'', crontab = ''/etc/crontab''\<rparr>"
  let ?fl = "\<lparr>bytes = ''# jobs\<newline>*/5 * * * * curl http://example.com\<newline>'',
             readErr = None\<rparr>"
  let ?Open = "\<lambda>_::string. Inr ?fl :: string + stream"
  let ?Parse = "\<lambda>_::string. None :: string option"
  let ?job = "createRunnable ''curl'' ''http://example.com'' ''0 */5 * * * *''"
  let ?c0 = "\<lparr>entries = [(''0 0 2 * * *'',
                          createRunnable ''/bin/backup.sh'' ''--full'' ''0 0 2 * * *'')],
              running = True\<rparr>"
  let ?c1 = "\<lparr>entries = [(''0 */5 * * * *'', ?job)], running = True\<rparr>"
  have sc: "Scan ?fl = ([''# jobs'', ''*/5 * * * * curl http://example.com''], None)"
    by (simp add: Scan_def scanLines.simps MaxScanTokenSize_def dropCR_def)
  have l1: "parseCrontabLine ?Parse New ''# jobs'' = Inr (New, [])"
    by code_simp
  have t1: "TrimSpace ''*/5 * * * * curl http://example.com'' \<noteq> []"
    by code_simp
  have t2: "\<not> HasPrefix (TrimSpace ''*/5 * * * * curl http://example.com'') ''#''"
    by code_simp
  have t3: "SplitN (Replace (TrimSpace ''*/5 * * * * curl http://example.com'')) (CHR '' '') 7
              = \<lparr>arr = [''*/5'', ''*'', ''*'', ''*'', ''*'', ''curl'', ''http://example.com''],
                 slen = 7\<rparr>"
    by code_simp
  have l2: "parseCrontabLine ?Parse New ''*/5 * * * * curl http://example.com''
              = Inr (New\<lparr>entries := [(''0 */5 * * * *'', ?job)]\<rparr>, [logCreation ?job])"
    using parseCrontabLine_tokens [OF t1 t2 t3, of ?Parse New] by (simp add: New_def)
  have first: "initCron ?cfg ?Parse ?Open ?c0
                 = Inr (\<lparr>entries = [(''0 0 2 * * *'',
                          createRunnable ''/bin/backup.sh'' ''--full'' ''0 0 2 * * *'')],
                         running = False\<rparr>, ?c1, [logCreation ?job])"
    apply (simp only: initCron_def Let_def sc sum.case prod.case parseLines.simps l1 l2
             option.case)
    apply (simp add: Stop_def Start_def New_def)
    done
  from initCron_idempotent [OF first]
  have "initCron ?cfg ?Parse ?Open ?c1 = Inr (Stop ?c1, ?c1, [logCreation ?job])"
    by blast
  then have second: "initCron ?cfg ?Parse ?Open ?c1
     = Inr (\<lparr>entries = [(''0 */5 * * * *'', ?job)], running = False\<rparr>, ?c1, [logCreation ?job])"
    by (simp add: Stop_def)
  from first second show ?thesis by (rule conjI)
qed

end
